theory Spec2Isabelle
  imports Complex_Main
begin

section \<open>Values of type double\<close>

text \<open>
  The macros compute with C++ \<open>double\<close>. The model keeps the special values of IEEE 754
  apart (\<open>NaN\<close>, the two infinities) and follows the standard's rules for them; a finite
  value is a real number and arithmetic on finite values is exact (rounding, overflow of
  finite results and the sign of zero are not modelled).
\<close>

datatype dbl = Fin real | PInf | NInf | NaN

fun isnan :: "dbl \<Rightarrow> bool" where
  "isnan NaN = True"
| "isnan _ = False"

fun dbl_neg :: "dbl \<Rightarrow> dbl" where
  "dbl_neg (Fin a) = Fin (- a)"
| "dbl_neg PInf = NInf"
| "dbl_neg NInf = PInf"
| "dbl_neg NaN = NaN"

fun dbl_add :: "dbl \<Rightarrow> dbl \<Rightarrow> dbl" where
  "dbl_add NaN _ = NaN"
| "dbl_add _ NaN = NaN"
| "dbl_add (Fin a) (Fin b) = Fin (a + b)"
| "dbl_add PInf NInf = NaN"
| "dbl_add NInf PInf = NaN"
| "dbl_add PInf _ = PInf"
| "dbl_add _ PInf = PInf"
| "dbl_add NInf _ = NInf"
| "dbl_add _ NInf = NInf"

definition dbl_sub :: "dbl \<Rightarrow> dbl \<Rightarrow> dbl" where
  "dbl_sub x y = dbl_add x (dbl_neg y)"

text \<open>The sign of a value: \<open>1\<close>, \<open>-1\<close>, or \<open>0\<close> for zero and NaN.\<close>

fun dbl_sign :: "dbl \<Rightarrow> int" where
  "dbl_sign (Fin a) = (if a > 0 then 1 else if a < 0 then -1 else 0)"
| "dbl_sign PInf = 1"
| "dbl_sign NInf = -1"
| "dbl_sign NaN = 0"

definition inf_of_sign :: "int \<Rightarrow> dbl" where
  "inf_of_sign s = (if s > 0 then PInf else if s < 0 then NInf else NaN)"

fun dbl_mul :: "dbl \<Rightarrow> dbl \<Rightarrow> dbl" where
  "dbl_mul NaN _ = NaN"
| "dbl_mul _ NaN = NaN"
| "dbl_mul (Fin a) (Fin b) = Fin (a * b)"
| "dbl_mul x y = inf_of_sign (dbl_sign x * dbl_sign y)"

text \<open>
  Division: a finite nonzero value over zero is an infinity, zero over zero and infinity
  over infinity are NaN, a finite value over an infinity is zero.
\<close>

fun dbl_div :: "dbl \<Rightarrow> dbl \<Rightarrow> dbl" where
  "dbl_div NaN _ = NaN"
| "dbl_div _ NaN = NaN"
| "dbl_div (Fin a) (Fin b) = (if b = 0 then inf_of_sign (dbl_sign (Fin a)) else Fin (a / b))"
| "dbl_div (Fin a) _ = Fin 0"
| "dbl_div x (Fin b) = inf_of_sign (dbl_sign x * (if b < 0 then -1 else 1))"
| "dbl_div _ _ = NaN"

fun dbl_sqrt :: "dbl \<Rightarrow> dbl" where
  "dbl_sqrt (Fin a) = (if a < 0 then NaN else Fin (sqrt a))"
| "dbl_sqrt PInf = PInf"
| "dbl_sqrt NInf = NaN"
| "dbl_sqrt NaN = NaN"

fun dbl_cos :: "dbl \<Rightarrow> dbl" where
  "dbl_cos (Fin a) = Fin (cos a)"
| "dbl_cos _ = NaN"

text \<open>The comparisons of C++: every comparison with NaN is false.\<close>

fun dbl_lt :: "dbl \<Rightarrow> dbl \<Rightarrow> bool" where
  "dbl_lt NaN _ = False"
| "dbl_lt _ NaN = False"
| "dbl_lt (Fin a) (Fin b) = (a < b)"
| "dbl_lt _ NInf = False"
| "dbl_lt PInf _ = False"
| "dbl_lt _ _ = True"

definition dbl_gt :: "dbl \<Rightarrow> dbl \<Rightarrow> bool" where
  "dbl_gt x y = dbl_lt y x"

fun dbl_eq :: "dbl \<Rightarrow> dbl \<Rightarrow> bool" where
  "dbl_eq NaN _ = False"
| "dbl_eq _ NaN = False"
| "dbl_eq x y = (x = y)"

definition sqr :: "dbl \<Rightarrow> dbl" where
  "sqr x = dbl_mul x x"

fun is_finite :: "dbl \<Rightarrow> bool" where
  "is_finite (Fin _) = True"
| "is_finite _ = False"

section \<open>The event record and the random generator\<close>

text \<open>
  The fields of \<open>caf::SRProxy\<close> that the macros read or write. The integer fields are
  C++ \<open>int\<close>; no claim depends on their overflow, so they are mathematical integers.
\<close>

record SRProxy =
  Elep_reco :: dbl
  theta_reco :: dbl
  LepPDG :: int
  nP :: int
  nipip :: int
  nipim :: int
  nipi0 :: int

text \<open>
  \<open>gRandom\<close> is ROOT's process-wide generator, a global variable of the program. Its
  state is modelled as the sequence of standard normal variates it is going to produce and
  the position reached; \<open>Gaus mean sigma\<close> returns \<open>mean + sigma * z\<close> for the next
  variate \<open>z\<close> and advances the position.
\<close>

record TRandom =
  variates :: "nat \<Rightarrow> real"
  pos :: nat

definition Gaus :: "TRandom \<Rightarrow> dbl \<Rightarrow> dbl \<Rightarrow> dbl \<times> TRandom" where
  "Gaus g mean sigma =
     (dbl_add mean (dbl_mul sigma (Fin (variates g (pos g)))), g\<lparr>pos := Suc (pos g)\<rparr>)"

section \<open>The Restorer\<close>

text \<open>
  Modelled from the spec: the class \<open>Restorer\<close> of CAFAna is not among the sources. The
  spec's UndoToken "captures exactly the fields it touched and their pre-mutation values",
  and undoing restores them in strict reverse order of recording. \<open>Add\<close> takes a reference
  to a field of the record; the model names the field and reads its current value. The
  newest entry is the head of the list, so that undoing walks the list from its head.
\<close>

datatype field = F_Elep_reco | F_theta_reco

type_synonym Restorer = "(field \<times> dbl) list"

fun get_field :: "field \<Rightarrow> SRProxy \<Rightarrow> dbl" where
  "get_field F_Elep_reco sr = Elep_reco sr"
| "get_field F_theta_reco sr = theta_reco sr"

fun set_field :: "field \<Rightarrow> dbl \<Rightarrow> SRProxy \<Rightarrow> SRProxy" where
  "set_field F_Elep_reco v sr = sr\<lparr>Elep_reco := v\<rparr>"
| "set_field F_theta_reco v sr = sr\<lparr>theta_reco := v\<rparr>"

definition Restorer_Add :: "field \<Rightarrow> SRProxy \<Rightarrow> Restorer \<Rightarrow> Restorer" where
  "Restorer_Add f sr restore = (f, get_field f sr) # restore"

fun Restorer_undo :: "Restorer \<Rightarrow> SRProxy \<Rightarrow> SRProxy" where
  "Restorer_undo [] sr = sr"
| "Restorer_undo ((f, v) # restore) sr = Restorer_undo restore (set_field f v sr)"

section \<open>The systematic shifts of the macros\<close>

text \<open>
  What a call of \<open>Shift\<close> can change: the Restorer, the record and the weight, which it
  receives by reference, and the global generator.
\<close>

record shift_state =
  restore :: Restorer
  sr :: SRProxy
  weight :: dbl
  gRandom :: TRandom

text \<open>\<open>EMuScale::Shift\<close>: \<open>restore.Add(sr->Elep_reco); sr->Elep_reco *= (1 + 0.2 * sigma);\<close>\<close>

definition EMuScale_Shift :: "dbl \<Rightarrow> shift_state \<Rightarrow> shift_state" where
  "EMuScale_Shift sigma s =
     (let s1 = s\<lparr>restore := Restorer_Add F_Elep_reco (sr s) (restore s)\<rparr>
      in s1\<lparr>sr := (sr s1)\<lparr>Elep_reco :=
               dbl_mul (Elep_reco (sr s1)) (dbl_add (Fin 1) (dbl_mul (Fin (2/10)) sigma))\<rparr>\<rparr>)"

text \<open>\<open>EMuSmear::Shift\<close>:
  \<open>restore.Add(sr->Elep_reco); sr->Elep_reco *= 1 + sigma*gRandom->Gaus(0, 0.2);\<close>\<close>

definition EMuSmear_Shift :: "dbl \<Rightarrow> shift_state \<Rightarrow> shift_state" where
  "EMuSmear_Shift sigma s =
     (let s1 = s\<lparr>restore := Restorer_Add F_Elep_reco (sr s) (restore s)\<rparr>;
          (r, g) = Gaus (gRandom s1) (Fin 0) (Fin (2/10))
      in s1\<lparr>sr := (sr s1)\<lparr>Elep_reco :=
               dbl_mul (Elep_reco (sr s1)) (dbl_add (Fin 1) (dbl_mul sigma r))\<rparr>,
            gRandom := g\<rparr>)"

text \<open>\<open>ThetaSmear::Shift\<close>:
  \<open>restore.Add(sr->theta_reco); sr->theta_reco += sigma*gRandom->Gaus(0, TMath::Pi()/6.0);\<close>\<close>

definition ThetaSmear_Shift :: "dbl \<Rightarrow> shift_state \<Rightarrow> shift_state" where
  "ThetaSmear_Shift sigma s =
     (let s1 = s\<lparr>restore := Restorer_Add F_theta_reco (sr s) (restore s)\<rparr>;
          (r, g) = Gaus (gRandom s1) (Fin 0) (Fin (pi / 6))
      in s1\<lparr>sr := (sr s1)\<lparr>theta_reco := dbl_add (theta_reco (sr s1)) (dbl_mul sigma r)\<rparr>,
            gRandom := g\<rparr>)"

text \<open>The three subclasses of \<open>ISyst\<close>; the virtual call dispatches on the class.\<close>

datatype ISyst = EMuScale | EMuSmear | ThetaSmear

fun Shift :: "ISyst \<Rightarrow> dbl \<Rightarrow> shift_state \<Rightarrow> shift_state" where
  "Shift EMuScale sigma s = EMuScale_Shift sigma s"
| "Shift EMuSmear sigma s = EMuSmear_Shift sigma s"
| "Shift ThetaSmear sigma s = ThetaSmear_Shift sigma s"

text \<open>
  Modelled from the spec: \<open>SystShifts\<close> of CAFAna is not among the sources. The spec's
  ShiftSet is an ordered sequence of (transform, magnitude) pairs, applied in sequence
  order; the empty sequence is the central value.
\<close>

type_synonym SystShifts = "(ISyst \<times> dbl) list"

fun SystShifts_Shift :: "SystShifts \<Rightarrow> shift_state \<Rightarrow> shift_state" where
  "SystShifts_Shift [] s = s"
| "SystShifts_Shift ((syst, sigma) # rest) s = SystShifts_Shift rest (Shift syst sigma s)"

text \<open>
  Modelled from the spec: applying a ShiftSet to a record starts from an empty Restorer and the weight multiplier
  one; undoing it plays the Restorer back on the shifted record.
\<close>

definition apply_shifts :: "SystShifts \<Rightarrow> SRProxy \<Rightarrow> TRandom \<Rightarrow> shift_state" where
  "apply_shifts S r g =
     SystShifts_Shift S \<lparr>restore = [], sr = r, weight = Fin 1, gRandom = g\<rparr>"

definition undo_shifts :: "shift_state \<Rightarrow> SRProxy" where
  "undo_shifts s = Restorer_undo (restore s) (sr s)"

section \<open>Selection and variables\<close>

text \<open>\<open>kHasCC0PiFinalState\<close>, the same lambda in both macros.\<close>

definition kHasCC0PiFinalState :: "SRProxy \<Rightarrow> bool" where
  "kHasCC0PiFinalState r =
     (let totPi = nipip r + nipim r + nipi0 r
      in \<bar>LepPDG r\<bar> = 13 \<and> nP r \<ge> 1 \<and> totPi = 0)"

text \<open>\<open>kRecoMuonEnergy\<close> of Systematics3.C.\<close>

definition kRecoMuonEnergy :: "SRProxy \<Rightarrow> dbl" where
  "kRecoMuonEnergy r = Elep_reco r"

text \<open>The physical constants of the macros, in GeV.\<close>

definition M_P :: dbl where "M_P = Fin (938 / 1000)"
definition M_N :: dbl where "M_N = Fin (939 / 1000)"
definition M_MU :: dbl where "M_MU = Fin (106 / 1000)"
definition E_B :: dbl where "E_B = Fin (28 / 1000)"

text \<open>
  \<open>QEFormula\<close> of Systematics3Solution.C, with the grouping that C++ gives the
  expressions: \<open>a - b - c + 2 * d * Emu\<close> is \<open>((a - b) - c) + ((2 * d) * Emu)\<close>.
\<close>

definition QEFormula :: "dbl \<Rightarrow> dbl \<Rightarrow> dbl" where
  "QEFormula Emu cosmu =
     (let pmu = dbl_sqrt (dbl_sub (sqr Emu) (sqr M_MU));
          num = dbl_add (dbl_sub (dbl_sub (sqr M_P) (sqr (dbl_sub M_N E_B))) (sqr M_MU))
                        (dbl_mul (dbl_mul (Fin 2) (dbl_sub M_N E_B)) Emu);
          denom = dbl_mul (Fin 2)
                    (dbl_add (dbl_sub (dbl_sub M_N E_B) Emu) (dbl_mul pmu cosmu))
      in if dbl_eq denom (Fin 0) then Fin 0 else dbl_div num denom)"

text \<open>\<open>kRecoQEFormulaEnergy\<close> of Systematics3Solution.C.\<close>

definition kRecoQEFormulaEnergy :: "SRProxy \<Rightarrow> dbl" where
  "kRecoQEFormulaEnergy r =
     (let Emu = Elep_reco r
      in if dbl_lt Emu M_MU then Fin 0
         else let cosmu = dbl_cos (theta_reco r)
              in if isnan Emu \<or> isnan cosmu then Fin 0
                 else QEFormula Emu cosmu)"

text \<open>The cut of the solution's spectra: \<open>kHasCC0PiFinalState && kRecoQEFormulaEnergy>0\<close>.\<close>

definition kSelectedQE :: "SRProxy \<Rightarrow> bool" where
  "kSelectedQE r = (kHasCC0PiFinalState r \<and> dbl_gt (kRecoQEFormulaEnergy r) (Fin 0))"

section \<open>Histograms and the fractional plot\<close>

text \<open>
  \<open>TH1D\<close> is a class of the ROOT library; the macro only calls it. A histogram is its
  axis range and the array of its cells (the bins with the underflow and overflow cells).
  The three methods that \<open>MakeFractionalPlot\<close> calls are modelled as ROOT documents and
  implements them:
  \<^item> \<open>Clone\<close> makes a copy in a new object;
  \<^item> \<open>Add(h1, c1)\<close> replaces every cell \<open>c0\<close> of the receiver by \<open>c0 + c1 * h1[i]\<close>;
  \<^item> \<open>Divide(h1)\<close> replaces every cell \<open>c0\<close> of the receiver by \<open>c0 / h1[i]\<close> when
    \<open>h1[i]\<close> is nonzero (the test \<open>if (c1)\<close>, which NaN passes) and by \<open>0\<close> otherwise.
  \<open>Add\<close> and \<open>Divide\<close> refuse histograms with a different number of cells: they report
  an error, return false and leave the receiver as it was. The bin errors are not modelled.
  Histograms live in a store and are handled through pointers, here indices into the
  store; following a pointer that is not in the store has no result.
\<close>

record TH1D =
  fXmin :: real
  fXmax :: real
  fArray :: "dbl list"

type_synonym store = "TH1D list"

definition same_binning :: "TH1D \<Rightarrow> TH1D \<Rightarrow> bool" where
  "same_binning a b =
     (fXmin a = fXmin b \<and> fXmax a = fXmax b \<and> length (fArray a) = length (fArray b))"

definition TH1_Clone :: "store \<Rightarrow> nat \<Rightarrow> (store \<times> nat) option" where
  "TH1_Clone H this = (if this < length H then Some (H @ [H ! this], length H) else None)"

definition Add_cell :: "dbl \<Rightarrow> dbl \<Rightarrow> dbl \<Rightarrow> dbl" where
  "Add_cell c1 c0 x = dbl_add c0 (dbl_mul c1 x)"

definition Divide_cell :: "dbl \<Rightarrow> dbl \<Rightarrow> dbl" where
  "Divide_cell c0 c1 = (if \<not> dbl_eq c1 (Fin 0) then dbl_div c0 c1 else Fin 0)"

definition TH1_Add :: "store \<Rightarrow> nat \<Rightarrow> nat \<Rightarrow> dbl \<Rightarrow> store option" where
  "TH1_Add H this h1 c1 =
     (if this < length H \<and> h1 < length H then
        if length (fArray (H ! this)) = length (fArray (H ! h1)) then
          Some (H[this := (H ! this)\<lparr>fArray :=
                  map2 (Add_cell c1) (fArray (H ! this)) (fArray (H ! h1))\<rparr>])
        else Some H
      else None)"

definition TH1_Divide :: "store \<Rightarrow> nat \<Rightarrow> nat \<Rightarrow> store option" where
  "TH1_Divide H this h1 =
     (if this < length H \<and> h1 < length H then
        if length (fArray (H ! this)) = length (fArray (H ! h1)) then
          Some (H[this := (H ! this)\<lparr>fArray :=
                  map2 Divide_cell (fArray (H ! this)) (fArray (H ! h1))\<rparr>])
        else Some H
      else None)"

text \<open>\<open>MakeFractionalPlot\<close> of Systematics3Solution.C:
  \<open>frac = shifted->Clone(); frac->Add(cv,-1); frac->Divide(cv); return frac;\<close>\<close>

definition MakeFractionalPlot :: "store \<Rightarrow> nat \<Rightarrow> nat \<Rightarrow> (store \<times> nat) option" where
  "MakeFractionalPlot H shifted cv =
     (case TH1_Clone H shifted of
        None \<Rightarrow> None
      | Some (H1, pfrac) \<Rightarrow>
          (case TH1_Add H1 pfrac cv (Fin (- 1)) of
             None \<Rightarrow> None
           | Some H2 \<Rightarrow>
               (case TH1_Divide H2 pfrac cv of
                  None \<Rightarrow> None
                | Some H3 \<Rightarrow> Some (H3, pfrac))))"

text \<open>What the three calls make of one cell of \<open>shifted\<close> and the cell of \<open>cv\<close> below it.\<close>

definition fractional_cell :: "dbl \<Rightarrow> dbl \<Rightarrow> dbl" where
  "fractional_cell s c = Divide_cell (Add_cell (Fin (- 1)) s c) c"

text \<open>The cells of the histogram that \<open>MakeFractionalPlot\<close> returns.\<close>

definition fractional_cells :: "store \<Rightarrow> nat \<Rightarrow> nat \<Rightarrow> dbl list option" where
  "fractional_cells H shifted cv =
     (case MakeFractionalPlot H shifted cv of
        None \<Rightarrow> None
      | Some (H', pfrac) \<Rightarrow> Some (fArray (H' ! pfrac)))"

text \<open>
  The spec's words for one bin: \<open>fractional(shifted, central) = (shifted - central) /
  central\<close>, in the arithmetic of doubles.
\<close>

definition fractional_spec :: "dbl \<Rightarrow> dbl \<Rightarrow> dbl" where
  "fractional_spec shifted central = dbl_div (dbl_sub shifted central) central"

section \<open>Binning, spectra and the loader\<close>

text \<open>
  Modelled from the spec: \<open>Binning\<close>, \<open>Spectrum\<close> and \<open>SpectrumLoader\<close> are classes of
  CAFAna and are not among the sources; the macros only construct them and call \<open>Go\<close>.
  The definitions of this section follow sections 3, 4.1, 4.3 and 4.4 of the spec.

  A BinningScheme is a strictly increasing sequence of edges. The uniform constructor
  "takes (count, lowEdge, highEdge) and produces count equal-width bins; must reject
  count \<le> 0 or lowEdge \<ge> highEdge with a configuration error". The edges are finite.
\<close>

datatype error = ConfigurationError | AlreadyRunning | AlreadyFinalized

record Binning =
  fNBins :: nat
  fMin :: real
  fMax :: real
  fEdges :: "real list"

definition Binning_Simple :: "int \<Rightarrow> real \<Rightarrow> real \<Rightarrow> error + Binning" where
  "Binning_Simple n lo hi =
     (if n \<le> 0 \<or> lo \<ge> hi then Inl ConfigurationError
      else Inr \<lparr>fNBins = nat n, fMin = lo, fMax = hi,
                fEdges = map (\<lambda>i. lo + real i * (hi - lo) / real_of_int n) [0..<Suc (nat n)]\<rparr>)"

text \<open>
  Modelled from the spec: \<open>binIndexOf(x) -> int | Underflow | Overflow\<close>. Bin \<open>i\<close> is
  the half-open interval from edge \<open>i\<close> to edge \<open>i + 1\<close>; the bin of a value in range is
  the number of edges that are not above it, less one. An infinite value is out of range
  on its side; NaN never reaches this function from \<open>observe\<close>.
\<close>

datatype bin_index = Bin nat | Underflow | Overflow

fun binIndexOf :: "Binning \<Rightarrow> dbl \<Rightarrow> bin_index" where
  "binIndexOf b (Fin x) =
     (if x < fMin b then Underflow
      else if x \<ge> fMax b then Overflow
      else Bin (length (filter (\<lambda>e. e \<le> x) (fEdges b)) - 1))"
| "binIndexOf b PInf = Overflow"
| "binIndexOf b NInf = Underflow"
| "binIndexOf b NaN = Overflow"

text \<open>
  Modelled from the spec: a Spectrum owns its binning, variable, predicate and ShiftSet, and the two arrays
  \<open>content\<close> and \<open>sumw2\<close>, one cell per bin. The counter \<open>dropped\<close> is the spec's optional
  tally of the selected events that reached no bin (NaN, underflow, overflow).
\<close>

record Spectrum =
  bins :: Binning
  var :: "SRProxy \<Rightarrow> dbl"
  cut :: "SRProxy \<Rightarrow> bool"
  shift :: SystShifts
  content :: "dbl list"
  sumw2 :: "dbl list"
  dropped :: nat

definition new_Spectrum ::
  "Binning \<Rightarrow> (SRProxy \<Rightarrow> dbl) \<Rightarrow> (SRProxy \<Rightarrow> bool) \<Rightarrow> SystShifts \<Rightarrow> Spectrum" where
  "new_Spectrum b v c S =
     \<lparr>bins = b, var = v, cut = c, shift = S,
      content = replicate (fNBins b) (Fin 0), sumw2 = replicate (fNBins b) (Fin 0),
      dropped = 0\<rparr>"

text \<open>
  Modelled from the spec: \<open>observe(record, weight)\<close> is to "evaluate SelectionPredicate(record); if false, no-op; if
  true, evaluate DerivedVariable(record) \<rightarrow> x; if x is undefined/NaN, no-op; otherwise
  find bin; if Underflow/Overflow, drop; otherwise content[bin] += weight;
  sumw2[bin] += weight*weight".
\<close>

definition observe :: "Spectrum \<Rightarrow> SRProxy \<Rightarrow> dbl \<Rightarrow> Spectrum" where
  "observe sp r w =
     (if \<not> cut sp r then sp
      else let x = var sp r
           in if isnan x then sp\<lparr>dropped := Suc (dropped sp)\<rparr>
              else case binIndexOf (bins sp) x of
                     Bin i \<Rightarrow>
                       if i < length (content sp) \<and> i < length (sumw2 sp) then
                         sp\<lparr>content := (content sp)[i := dbl_add (content sp ! i) w],
                            sumw2 := (sumw2 sp)[i := dbl_add (sumw2 sp ! i) (dbl_mul w w)]\<rparr>
                       else sp\<lparr>dropped := Suc (dropped sp)\<rparr>
                   | Underflow \<Rightarrow> sp\<lparr>dropped := Suc (dropped sp)\<rparr>
                   | Overflow \<Rightarrow> sp\<lparr>dropped := Suc (dropped sp)\<rparr>)"

text \<open>
  Modelled from the spec: the loader's plan is made of the distinct ShiftSets of the registered spectra, in the order of
  their first registration (the spec leaves the order open).
\<close>

fun distinct_shifts :: "SystShifts list \<Rightarrow> SystShifts list" where
  "distinct_shifts [] = []"
| "distinct_shifts (S # Ss) = S # filter (\<lambda>S'. S' \<noteq> S) (distinct_shifts Ss)"

text \<open>
  Modelled from the spec: what the pass carries from one ShiftSet to the next is the spectra, the event record (the
  one buffer that the shifts mutate and the Restorer puts back) and the global generator.
\<close>

record pass_state =
  spectra :: "Spectrum list"
  event :: SRProxy
  rng :: TRandom

text \<open>
  Modelled from the spec: one ShiftSet on one event is to "apply the ShiftSet to the event (accumulating the net weight
  multiplier against a caller-supplied base event weight), call observe on every Spectrum
  registered under that ShiftSet, then undo the ShiftSet".
\<close>

definition handle_shift :: "dbl \<Rightarrow> SystShifts \<Rightarrow> pass_state \<Rightarrow> pass_state" where
  "handle_shift w S p =
     (let st = apply_shifts S (event p) (rng p)
      in \<lparr>spectra = map (\<lambda>sp. if shift sp = S then observe sp (sr st) (dbl_mul w (weight st))
                                else sp) (spectra p),
          event = undo_shifts st,
          rng = gRandom st\<rparr>)"

text \<open>
  Modelled from the spec: one event, with its base weight, meets every distinct ShiftSet
  once, in the order of the plan.
\<close>

definition handle_record ::
  "SystShifts list \<Rightarrow> SRProxy \<times> dbl \<Rightarrow> Spectrum list \<times> TRandom \<Rightarrow> Spectrum list \<times> TRandom"
  where
  "handle_record plan ev acc =
     (let p = fold (handle_shift (snd ev)) plan
                \<lparr>spectra = fst acc, event = fst ev, rng = snd acc\<rparr>
      in (spectra p, rng p))"

text \<open>
  Modelled from the spec: the loader goes \<open>Idle \<rightarrow> Running \<rightarrow> Finalized\<close>. \<open>registerSpectrum\<close> is legal in \<open>Idle\<close>
  only; \<open>Go\<close> makes the single pass over the events and finalizes, and a second \<open>Go\<close>
  fails. The generator is the program's global and outlives the loader.
\<close>

datatype loader_state = Idle | Running | Finalized

record Loader =
  state :: loader_state
  registered :: "Spectrum list"

definition new_Loader :: Loader where
  "new_Loader = \<lparr>state = Idle, registered = []\<rparr>"

definition registerSpectrum :: "Spectrum \<Rightarrow> Loader \<Rightarrow> error + Loader" where
  "registerSpectrum sp l =
     (if state l = Idle then Inr (l\<lparr>registered := registered l @ [sp]\<rparr>)
      else Inl AlreadyRunning)"

definition Go :: "Loader \<Rightarrow> (SRProxy \<times> dbl) list \<Rightarrow> TRandom \<Rightarrow> error + (Loader \<times> TRandom)" where
  "Go l events g =
     (if state l = Finalized then Inl AlreadyFinalized
      else if state l = Running then Inl AlreadyRunning
      else let plan = distinct_shifts (map shift (registered l));
               res = fold (handle_record plan) events (registered l, g)
           in Inr (\<lparr>state = Finalized, registered = fst res\<rparr>, snd res))"

text \<open>The spectra that a pass over the events fills, and the generator it leaves.\<close>

definition run_spectra :: "Spectrum list \<Rightarrow> (SRProxy \<times> dbl) list \<Rightarrow> TRandom \<Rightarrow> Spectrum list"
  where
  "run_spectra sps events g =
     (case Go \<lparr>state = Idle, registered = sps\<rparr> events g of
        Inl _ \<Rightarrow> []
      | Inr (l, _) \<Rightarrow> registered l)"

definition run_rng :: "Spectrum list \<Rightarrow> (SRProxy \<times> dbl) list \<Rightarrow> TRandom \<Rightarrow> TRandom"
  where
  "run_rng sps events g =
     (case Go \<lparr>state = Idle, registered = sps\<rparr> events g of
        Inl _ \<Rightarrow> g
      | Inr (_, g') \<Rightarrow> g')"

section \<open>The spectra of the macros and sample inputs\<close>

text \<open>
  Systematics3.C registers five spectra of the muon energy on \<open>Binning::Simple(40, 0, 10)\<close>
  under the CC0pi cut: central value, scale up, scale down, energy smear, angle smear.
\<close>

definition ssScaleUp :: SystShifts where "ssScaleUp = [(EMuScale, Fin 1)]"
definition ssScaleDn :: SystShifts where "ssScaleDn = [(EMuScale, Fin (- 1))]"
definition ssSmear :: SystShifts where "ssSmear = [(EMuSmear, Fin 1)]"
definition ssThetaSmear :: SystShifts where "ssThetaSmear = [(ThetaSmear, Fin 1)]"

definition Systematics3_spectra :: "Binning \<Rightarrow> Spectrum list" where
  "Systematics3_spectra b =
     [new_Spectrum b kRecoMuonEnergy kHasCC0PiFinalState [],
      new_Spectrum b kRecoMuonEnergy kHasCC0PiFinalState ssScaleUp,
      new_Spectrum b kRecoMuonEnergy kHasCC0PiFinalState ssScaleDn,
      new_Spectrum b kRecoMuonEnergy kHasCC0PiFinalState ssSmear,
      new_Spectrum b kRecoMuonEnergy kHasCC0PiFinalState ssThetaSmear]"

text \<open>A ShiftSet is deterministic when none of its transforms draws from the generator.\<close>

fun stochastic :: "ISyst \<Rightarrow> bool" where
  "stochastic EMuScale = False"
| "stochastic EMuSmear = True"
| "stochastic ThetaSmear = True"

definition deterministic :: "SystShifts \<Rightarrow> bool" where
  "deterministic S = list_all (\<lambda>p. \<not> stochastic (fst p)) S"

text \<open>Sample inputs for the concrete statements.\<close>

definition muon :: "real \<Rightarrow> SRProxy" where
  "muon e = \<lparr>Elep_reco = Fin e, theta_reco = Fin 0, LepPDG = 13, nP = 1,
             nipip = 0, nipim = 0, nipi0 = 0\<rparr>"

definition g_example :: TRandom where
  "g_example = \<lparr>variates = (\<lambda>n. if n = 1 then 1 else 0), pos = 0\<rparr>"

definition s_example :: shift_state where
  "s_example = \<lparr>restore = [], sr = muon 2, weight = Fin 1, gRandom = g_example\<rparr>"

definition two_bins :: Binning where
  "two_bins = \<lparr>fNBins = 2, fMin = 0, fMax = 10, fEdges = [0, 5, 10]\<rparr>"

definition always_true :: "SRProxy \<Rightarrow> bool" where
  "always_true r = True"

definition three_events :: "(SRProxy \<times> dbl) list" where
  "three_events = [(muon (1/2), Fin 1), (muon (19/2), Fin 1), (muon 5, Fin 1)]"

definition hist :: "dbl list \<Rightarrow> TH1D" where
  "hist cells = \<lparr>fXmin = 0, fXmax = 10, fArray = cells\<rparr>"

text \<open>The binning that \<open>Binning::Simple(40, 0, 10)\<close> returns.\<close>

definition binsEnergy :: Binning where
  "binsEnergy = \<lparr>fNBins = 40, fMin = 0, fMax = 10,
     fEdges = map (\<lambda>i. 0 + real i * (10 - 0) / real_of_int 40) [0..<Suc (nat 40)]\<rparr>"

definition one_muon :: "(SRProxy \<times> dbl) list" where
  "one_muon = [(muon (6/5), Fin 1)]"

definition two_muons :: "(SRProxy \<times> dbl) list" where
  "two_muons = [(muon (6/5), Fin 1), (muon (6/5), Fin 1)]"

definition g_example_later :: TRandom where
  "g_example_later = \<lparr>variates = (\<lambda>n. if n = 4 then 1 else 0), pos = 3\<rparr>"

section \<open>Notions for the statements about the generator\<close>

text \<open>
  Two generator states hold the same stream when they are going to produce the same
  variates from where they stand: what seeding two generators identically achieves.
\<close>

definition same_stream :: "TRandom \<Rightarrow> TRandom \<Rightarrow> bool" where
  "same_stream g g' = (\<forall>n. variates g (pos g + n) = variates g' (pos g' + n))"

definition same_inputs :: "shift_state \<Rightarrow> shift_state \<Rightarrow> bool" where
  "same_inputs s s' = (restore s = restore s' \<and> sr s = sr s' \<and> weight s = weight s' \<and>
     same_stream (gRandom s) (gRandom s'))"

definition same_pass :: "pass_state \<Rightarrow> pass_state \<Rightarrow> bool" where
  "same_pass p p' = (spectra p = spectra p' \<and> event p = event p' \<and> same_stream (rng p) (rng p'))"

text \<open>
  Where a record lands in a spectrum: nowhere when the cut fails, else in the bin of the
  variable (a NaN, like an overflow, reaches no bin). A spectrum is free of the generator
  when every record, shifted by the spectrum's ShiftSet, lands in the same place whatever
  the generator hands out.
\<close>

definition landing :: "Spectrum \<Rightarrow> SRProxy \<Rightarrow> bin_index option" where
  "landing sp r = (if cut sp r then Some (binIndexOf (bins sp) (var sp r)) else None)"

definition generator_free :: "Spectrum \<Rightarrow> bool" where
  "generator_free sp =
     (\<forall>r g g'. landing sp (sr (apply_shifts (shift sp) r g)) =
                landing sp (sr (apply_shifts (shift sp) r g')))"

text \<open>
  What a spectrum that is free of the generator makes of one event: its ShiftSet applied
  to the event (with any generator, here one that hands out zeros) and the shifted record
  observed.
\<close>

definition g_quiet :: TRandom where
  "g_quiet = \<lparr>variates = (\<lambda>n. 0), pos = 0\<rparr>"

definition det_observe :: "SRProxy \<times> dbl \<Rightarrow> Spectrum \<Rightarrow> Spectrum" where
  "det_observe ev sp =
     (let st = apply_shifts (shift sp) (fst ev) g_quiet
      in observe sp (sr st) (dbl_mul (snd ev) (weight st)))"

section \<open>Restoration\<close>

lemma Restorer_undo_frame:
  "LepPDG (Restorer_undo R r) = LepPDG r \<and> nP (Restorer_undo R r) = nP r \<and>
   nipip (Restorer_undo R r) = nipip r \<and> nipim (Restorer_undo R r) = nipim r \<and>
   nipi0 (Restorer_undo R r) = nipi0 r"
proof (induction R arbitrary: r)
  case Nil
  show ?case by simp
next
  case (Cons e R)
  obtain f v where e: "e = (f, v)" by (cases e)
  show ?case using Cons.IH [of "set_field f v r"] by (cases f) (simp_all add: e)
qed

lemma Shift_undo_step:
  "Restorer_undo (restore (Shift syst sigma s)) (sr (Shift syst sigma s)) =
   Restorer_undo (restore s) (sr s)"
  by (cases syst)
     (simp_all add: EMuScale_Shift_def EMuSmear_Shift_def ThetaSmear_Shift_def
        Restorer_Add_def Let_def split: prod.splits)

lemma SystShifts_undo:
  "Restorer_undo (restore (SystShifts_Shift S s)) (sr (SystShifts_Shift S s)) =
   Restorer_undo (restore s) (sr s)"
proof (induction S arbitrary: s)
  case Nil
  show ?case by simp
next
  case (Cons p S)
  obtain syst sigma where p: "p = (syst, sigma)" by (cases p)
  show ?case unfolding p by (simp add: Cons.IH Shift_undo_step)
qed

lemma undo_apply_shifts: "undo_shifts (apply_shifts S r g) = r"
  unfolding undo_shifts_def apply_shifts_def by (simp add: SystShifts_undo)

text \<open>
  C1. For every event record \<open>r\<close>, every ShiftSet \<open>S\<close> (also with the stochastic
  transforms, whatever the generator produces), applying \<open>S\<close> and undoing it gives back
  exactly \<open>r\<close>; and each transform has put the value the field had before the mutation
  into the Restorer: after a single \<open>Shift\<close> the newest Restorer entry names a field and
  holds the value that field had in the record before the call.
\<close>

theorem C1_restoration_exact:
  "undo_shifts (apply_shifts S r g) = r \<and>
   (\<exists>f. restore (Shift syst sigma s) = (f, get_field f (sr s)) # restore s \<and>
        (\<forall>f'. f' \<noteq> f \<longrightarrow> get_field f' (sr (Shift syst sigma s)) = get_field f' (sr s)))"
proof
  show "undo_shifts (apply_shifts S r g) = r"
    unfolding undo_shifts_def apply_shifts_def by (simp add: SystShifts_undo)
next
  let ?P = "\<lambda>f. restore (Shift syst sigma s) = (f, get_field f (sr s)) # restore s \<and>
        (\<forall>f'. f' \<noteq> f \<longrightarrow> get_field f' (sr (Shift syst sigma s)) = get_field f' (sr s))"
  show "\<exists>f. ?P f"
  proof (cases syst)
    case EMuScale
    have "get_field f' (sr (Shift syst sigma s)) = get_field f' (sr s)"
      if "f' \<noteq> F_Elep_reco" for f'
      using that unfolding EMuScale by (cases f') (simp_all add: EMuScale_Shift_def Let_def)
    moreover have "restore (Shift syst sigma s) =
        (F_Elep_reco, get_field F_Elep_reco (sr s)) # restore s"
      unfolding EMuScale by (simp add: EMuScale_Shift_def Restorer_Add_def Let_def)
    ultimately have "?P F_Elep_reco" by blast
    then show ?thesis ..
  next
    case EMuSmear
    have "get_field f' (sr (Shift syst sigma s)) = get_field f' (sr s)"
      if "f' \<noteq> F_Elep_reco" for f'
      using that unfolding EMuSmear
      by (cases f') (simp_all add: EMuSmear_Shift_def Let_def split: prod.splits)
    moreover have "restore (Shift syst sigma s) =
        (F_Elep_reco, get_field F_Elep_reco (sr s)) # restore s"
      unfolding EMuSmear
      by (simp add: EMuSmear_Shift_def Restorer_Add_def Let_def split: prod.splits)
    ultimately have "?P F_Elep_reco" by blast
    then show ?thesis ..
  next
    case ThetaSmear
    have "get_field f' (sr (Shift syst sigma s)) = get_field f' (sr s)"
      if "f' \<noteq> F_theta_reco" for f'
      using that unfolding ThetaSmear
      by (cases f') (simp_all add: ThetaSmear_Shift_def Let_def split: prod.splits)
    moreover have "restore (Shift syst sigma s) =
        (F_theta_reco, get_field F_theta_reco (sr s)) # restore s"
      unfolding ThetaSmear
      by (simp add: ThetaSmear_Shift_def Restorer_Add_def Let_def split: prod.splits)
    ultimately have "?P F_theta_reco" by blast
    then show ?thesis ..
  qed
qed

theorem C1_restoration_exact_witness:
  "undo_shifts (apply_shifts [(EMuSmear, Fin 1), (ThetaSmear, Fin 1), (EMuScale, Fin 1)]
      (muon 2) g_example) = muon 2 \<and>
   restore (Shift EMuScale (Fin 1) s_example) = [(F_Elep_reco, Fin 2)] \<and>
   F_theta_reco \<noteq> F_Elep_reco \<and>
   get_field F_theta_reco (sr (Shift EMuScale (Fin 1) s_example)) = Fin 0"
  using C1_restoration_exact [of "[(EMuSmear, Fin 1), (ThetaSmear, Fin 1), (EMuScale, Fin 1)]"
      "muon 2" g_example EMuScale "Fin 1" s_example]
  by (simp add: s_example_def muon_def EMuScale_Shift_def Restorer_Add_def Let_def)

section \<open>What the shifts leave alone\<close>

lemma Shift_frame:
  "LepPDG (sr (Shift syst sigma s)) = LepPDG (sr s) \<and> nP (sr (Shift syst sigma s)) = nP (sr s) \<and>
   nipip (sr (Shift syst sigma s)) = nipip (sr s) \<and> nipim (sr (Shift syst sigma s)) = nipim (sr s) \<and>
   nipi0 (sr (Shift syst sigma s)) = nipi0 (sr s)"
  by (cases syst)
     (simp_all add: EMuScale_Shift_def EMuSmear_Shift_def ThetaSmear_Shift_def Let_def
        split: prod.splits)

lemma SystShifts_frame:
  "LepPDG (sr (SystShifts_Shift S s)) = LepPDG (sr s) \<and>
   nP (sr (SystShifts_Shift S s)) = nP (sr s) \<and>
   nipip (sr (SystShifts_Shift S s)) = nipip (sr s) \<and>
   nipim (sr (SystShifts_Shift S s)) = nipim (sr s) \<and>
   nipi0 (sr (SystShifts_Shift S s)) = nipi0 (sr s)"
proof (induction S arbitrary: s)
  case Nil
  show ?case by simp
next
  case (Cons p S)
  obtain syst sigma where p: "p = (syst, sigma)" by (cases p)
  show ?case unfolding p using Cons.IH [of "Shift syst sigma s"] Shift_frame [of syst sigma s]
    by simp
qed

text \<open>
  C9. \<open>EMuScale\<close> and \<open>EMuSmear\<close> change the record in \<open>Elep_reco\<close> only, \<open>ThetaSmear\<close> in
  \<open>theta_reco\<close> only. Whatever the ShiftSet, \<open>LepPDG\<close>, \<open>nP\<close>, \<open>nipip\<close>, \<open>nipim\<close> and \<open>nipi0\<close>
  keep their values, and \<open>kHasCC0PiFinalState\<close> gives the same answer on the shifted
  record as on the record itself.
\<close>

theorem C9_shifts_frame:
  "(\<exists>v. sr (Shift EMuScale sigma s) = (sr s)\<lparr>Elep_reco := v\<rparr>) \<and>
   (\<exists>v. sr (Shift EMuSmear sigma s) = (sr s)\<lparr>Elep_reco := v\<rparr>) \<and>
   (\<exists>v. sr (Shift ThetaSmear sigma s) = (sr s)\<lparr>theta_reco := v\<rparr>) \<and>
   LepPDG (sr (SystShifts_Shift S s)) = LepPDG (sr s) \<and>
   nP (sr (SystShifts_Shift S s)) = nP (sr s) \<and>
   nipip (sr (SystShifts_Shift S s)) = nipip (sr s) \<and>
   nipim (sr (SystShifts_Shift S s)) = nipim (sr s) \<and>
   nipi0 (sr (SystShifts_Shift S s)) = nipi0 (sr s) \<and>
   kHasCC0PiFinalState (sr (SystShifts_Shift S s)) = kHasCC0PiFinalState (sr s) \<and>
   kHasCC0PiFinalState (sr (apply_shifts S r g)) = kHasCC0PiFinalState r"
proof -
  have a: "\<exists>v. sr (Shift EMuScale sigma s) = (sr s)\<lparr>Elep_reco := v\<rparr>"
    by (simp add: EMuScale_Shift_def Let_def) blast
  have b: "\<exists>v. sr (Shift EMuSmear sigma s) = (sr s)\<lparr>Elep_reco := v\<rparr>"
    by (simp add: EMuSmear_Shift_def Let_def split: prod.splits) blast
  have c: "\<exists>v. sr (Shift ThetaSmear sigma s) = (sr s)\<lparr>theta_reco := v\<rparr>"
    by (simp add: ThetaSmear_Shift_def Let_def split: prod.splits) blast
  have d: "kHasCC0PiFinalState (sr (SystShifts_Shift S s')) = kHasCC0PiFinalState (sr s')" for s'
    using SystShifts_frame [of S s'] by (simp add: kHasCC0PiFinalState_def)
  have e: "kHasCC0PiFinalState (sr (apply_shifts S r g)) = kHasCC0PiFinalState r"
    unfolding apply_shifts_def using d [of "\<lparr>restore = [], sr = r, weight = Fin 1, gRandom = g\<rparr>"]
    by simp
  show ?thesis using a b c d [of s] e SystShifts_frame [of S s] by blast
qed

section \<open>The quasi-elastic energy\<close>

text \<open>
  On every record whose muon energy is not \<open>+\<infinity>\<close> the variable is a finite number: the
  guards return \<open>0\<close> below the muon mass and on NaN, the argument of the square root is
  not negative, and the quotient is taken for a nonzero denominator only.
\<close>

lemma kRecoQEFormulaEnergy_finite:
  assumes "Elep_reco r \<noteq> PInf"
  shows "is_finite (kRecoQEFormulaEnergy r)"
proof (cases "Elep_reco r")
  case (Fin e)
  show ?thesis
  proof (cases "e < 106 / 1000")
    case True
    then show ?thesis by (simp add: kRecoQEFormulaEnergy_def Fin M_MU_def)
  next
    case False
    then have "e * e \<ge> (106 / 1000) * (106 / 1000)"
      by (intro mult_mono) auto
    then have nn: "\<not> e * e - 106 / 1000 * (106 / 1000) < 0" by simp
    show ?thesis
    proof (cases "theta_reco r")
      case (Fin t)
      show ?thesis using False nn
        by (simp add: kRecoQEFormulaEnergy_def \<open>Elep_reco r = Fin e\<close> Fin QEFormula_def M_MU_def
            M_P_def M_N_def E_B_def sqr_def dbl_sub_def Let_def)
    qed (simp_all add: kRecoQEFormulaEnergy_def \<open>Elep_reco r = Fin e\<close> M_MU_def Let_def)
  qed
qed (use assms in \<open>simp_all add: kRecoQEFormulaEnergy_def M_MU_def Let_def\<close>)

text \<open>
  The spectra of the solution cut on \<open>kRecoQEFormulaEnergy > 0\<close>: an event whose energy
  comes out as \<open>0\<close> or as NaN is not selected.
\<close>

lemma kSelectedQE_excludes:
  "kRecoQEFormulaEnergy r = Fin 0 \<or> kRecoQEFormulaEnergy r = NaN \<Longrightarrow> \<not> kSelectedQE r"
  by (auto simp: kSelectedQE_def dbl_gt_def)

text \<open>
  C8. The claim is that the variable never returns NaN, on any record. On a record whose
  muon energy is \<open>+\<infinity>\<close> (and whose angle is finite, here \<open>0\<close>) neither guard fires:
  \<open>+\<infinity> < M_MU\<close> is false and neither input is NaN. \<open>QEFormula\<close> then computes the
  denominator \<open>2 * (M_N - E_B - \<infinity> + \<infinity> * 1)\<close>, which is NaN and so not equal to zero,
  and returns \<open>\<infinity> / NaN\<close>, which is NaN.
\<close>

theorem C8_infinite_energy_NaN:
  "kRecoQEFormulaEnergy (r\<lparr>Elep_reco := PInf, theta_reco := Fin 0\<rparr>) = NaN"
  by (simp add: kRecoQEFormulaEnergy_def QEFormula_def M_MU_def M_P_def M_N_def E_B_def sqr_def
      dbl_sub_def inf_of_sign_def Let_def)

section \<open>The fractional plot\<close>

lemma dbl_mul_minus_one: "dbl_mul (Fin (- 1)) c = dbl_neg c"
  by (cases c) (simp_all add: inf_of_sign_def)

lemma Add_cell_minus_one: "Add_cell (Fin (- 1)) s c = dbl_sub s c"
  by (simp add: Add_cell_def dbl_sub_def dbl_mul_minus_one)

lemma MakeFractionalPlot_eq:
  assumes "shifted < length H" and "cv < length H"
    and "length (fArray (H ! shifted)) = length (fArray (H ! cv))"
  shows "MakeFractionalPlot H shifted cv =
    Some (H @ [(H ! shifted)\<lparr>fArray :=
        map2 fractional_cell (fArray (H ! shifted)) (fArray (H ! cv))\<rparr>], length H)"
proof -
  let ?s = "fArray (H ! shifted)" and ?c = "fArray (H ! cv)"
  have 1: "TH1_Clone H shifted = Some (H @ [H ! shifted], length H)"
    using assms by (simp add: TH1_Clone_def)
  let ?H1 = "H @ [H ! shifted]"
  have cv1: "?H1 ! cv = H ! cv" using assms by (simp add: nth_append)
  let ?H2 = "H @ [(H ! shifted)\<lparr>fArray := map2 (Add_cell (Fin (- 1))) ?s ?c\<rparr>]"
  have 2: "TH1_Add ?H1 (length H) cv (Fin (- 1)) = Some ?H2"
    using assms by (simp add: TH1_Add_def cv1)
  have cv2: "?H2 ! cv = H ! cv" using assms by (simp add: nth_append)
  have m: "map2 Divide_cell (map2 (Add_cell (Fin (- 1))) ?s ?c) ?c = map2 fractional_cell ?s ?c"
    using assms(3)
    by (intro nth_equalityI) (simp_all add: fractional_cell_def)
  have 3: "TH1_Divide ?H2 (length H) cv =
     Some (H @ [(H ! shifted)\<lparr>fArray := map2 fractional_cell ?s ?c\<rparr>])"
    using assms by (simp add: TH1_Divide_def cv2 m)
  show ?thesis by (simp add: MakeFractionalPlot_def 1 2 3)
qed

lemma fractional_cell_nonzero:
  "\<not> dbl_eq c (Fin 0) \<Longrightarrow> fractional_cell s c = fractional_spec s c"
  by (simp add: fractional_cell_def Divide_cell_def Add_cell_minus_one fractional_spec_def)

lemma fractional_cell_zero: "dbl_eq c (Fin 0) \<Longrightarrow> fractional_cell s c = Fin 0"
  by (simp add: fractional_cell_def Divide_cell_def)

lemma fractional_cell_self: "is_finite a \<Longrightarrow> fractional_cell a a = Fin 0"
  by (cases a) (simp_all add: fractional_cell_def Divide_cell_def Add_cell_def)

text \<open>
  C4 as stated fails in a bin whose central content is zero: with \<open>shifted = [1]\<close> and
  \<open>central = [0]\<close> the macro returns \<open>[0]\<close>, where \<open>(1 - 0) / 0\<close> is \<open>+\<infinity>\<close>.
\<close>

theorem C4_counterexample:
  "fractional_cells [hist [Fin 1], hist [Fin 0]] 0 1 = Some [Fin 0] \<and>
   fractional_spec (Fin 1) (Fin 0) = PInf"
  by (simp add: fractional_cells_def MakeFractionalPlot_def TH1_Clone_def TH1_Add_def
      TH1_Divide_def hist_def Add_cell_def Divide_cell_def fractional_spec_def dbl_sub_def
      inf_of_sign_def)

text \<open>
  C4, amended. For two histograms of the store with the same binning, \<open>MakeFractionalPlot\<close>
  returns a new histogram (a pointer that was not in the store) and leaves every histogram
  that was in the store, \<open>shifted\<close> and \<open>cv\<close> among them, as it was. The value of the new
  histogram is \<open>(shifted - central) / central\<close> in every bin whose central content is not zero,
  and \<open>0\<close> in the bins whose central content is zero.
\<close>

theorem C4_fractional_plot:
  assumes "shifted < length H" and "cv < length H" and "same_binning (H ! shifted) (H ! cv)"
  shows "\<exists>H' p. MakeFractionalPlot H shifted cv = Some (H', p) \<and>
      p = length H \<and> length H' = Suc (length H) \<and> take (length H) H' = H \<and>
      H' ! shifted = H ! shifted \<and> H' ! cv = H ! cv \<and>
      length (fArray (H' ! p)) = length (fArray (H ! cv)) \<and>
      (\<forall>i < length (fArray (H ! cv)).
         fArray (H' ! p) ! i =
           (if dbl_eq (fArray (H ! cv) ! i) (Fin 0) then Fin 0
            else fractional_spec (fArray (H ! shifted) ! i) (fArray (H ! cv) ! i)))"
proof -
  have len: "length (fArray (H ! shifted)) = length (fArray (H ! cv))"
    using assms(3) by (simp add: same_binning_def)
  let ?new = "(H ! shifted)\<lparr>fArray :=
        map2 fractional_cell (fArray (H ! shifted)) (fArray (H ! cv))\<rparr>"
  have eq: "MakeFractionalPlot H shifted cv = Some (H @ [?new], length H)"
    using MakeFractionalPlot_eq [OF assms(1,2) len] .
  have cells: "fArray ((H @ [?new]) ! length H) ! i =
           (if dbl_eq (fArray (H ! cv) ! i) (Fin 0) then Fin 0
            else fractional_spec (fArray (H ! shifted) ! i) (fArray (H ! cv) ! i))"
    if "i < length (fArray (H ! cv))" for i
    using that len by (simp add: fractional_cell_zero fractional_cell_nonzero)
  show ?thesis
    using eq assms(1,2) len cells by (simp add: nth_append)
qed

theorem C4_fractional_plot_witness:
  "(0::nat) < length [hist [Fin 3, Fin 1], hist [Fin 2, Fin 0]] \<and>
   (1::nat) < length [hist [Fin 3, Fin 1], hist [Fin 2, Fin 0]] \<and>
   same_binning ([hist [Fin 3, Fin 1], hist [Fin 2, Fin 0]] ! 0)
                ([hist [Fin 3, Fin 1], hist [Fin 2, Fin 0]] ! 1) \<and>
   (\<exists>H' p. MakeFractionalPlot [hist [Fin 3, Fin 1], hist [Fin 2, Fin 0]] 0 1 = Some (H', p) \<and>
      p = 2 \<and> H' ! 0 = hist [Fin 3, Fin 1] \<and> H' ! 1 = hist [Fin 2, Fin 0] \<and>
      fArray (H' ! p) ! 0 = Fin (1/2) \<and> fArray (H' ! p) ! 1 = Fin 0)"
proof -
  let ?H = "[hist [Fin 3, Fin 1], hist [Fin 2, Fin 0]]"
  have a: "(0::nat) < length ?H" and b: "(1::nat) < length ?H" by simp_all
  have c: "same_binning (?H ! 0) (?H ! 1)" by (simp add: same_binning_def hist_def)
  obtain H' p where r: "MakeFractionalPlot ?H 0 1 = Some (H', p)" "p = length ?H"
    "H' ! 0 = ?H ! 0" "H' ! 1 = ?H ! 1"
    and cells: "\<forall>i < length (fArray (?H ! 1)).
         fArray (H' ! p) ! i =
           (if dbl_eq (fArray (?H ! 1) ! i) (Fin 0) then Fin 0
            else fractional_spec (fArray (?H ! 0) ! i) (fArray (?H ! 1) ! i))"
    using C4_fractional_plot [OF a b c] by blast
  have "fArray (H' ! p) ! 0 = Fin (1/2)"
    using cells [rule_format, of 0] by (simp add: hist_def fractional_spec_def dbl_sub_def)
  moreover have "fArray (H' ! p) ! 1 = Fin 0"
    using cells [rule_format, of 1] by (simp add: hist_def)
  ultimately show ?thesis using a b c r by simp
qed

text \<open>
  C5 as stated fails: in the second bin the central content is zero and the macro returns
  \<open>0\<close> there, which is not NaN.
\<close>

theorem C5_counterexample:
  "fractional_cells [hist [Fin 3, Fin 1], hist [Fin 2, Fin 0]] 0 1 = Some [Fin (1/2), Fin 0] \<and>
   \<not> isnan (Fin 0)"
  by (simp add: fractional_cells_def MakeFractionalPlot_def TH1_Clone_def TH1_Add_def
      TH1_Divide_def hist_def Add_cell_def Divide_cell_def)

text \<open>
  C5, amended. In a bin whose central content is zero the fractional plot holds \<open>0\<close>: the
  call returns (no crash) and the value is not NaN. Every other bin holds what \<open>Divide\<close>
  makes of its own two contents, whatever the zero bin holds.
\<close>

theorem C5_zero_central_bin:
  assumes "shifted < length H" and "cv < length H" and "same_binning (H ! shifted) (H ! cv)"
    and "i < length (fArray (H ! cv))" and "dbl_eq (fArray (H ! cv) ! i) (Fin 0)"
  shows "\<exists>cells. fractional_cells H shifted cv = Some cells \<and>
      cells ! i = Fin 0 \<and> \<not> isnan (cells ! i) \<and>
      (\<forall>j < length (fArray (H ! cv)). j \<noteq> i \<longrightarrow>
         cells ! j = Divide_cell (dbl_sub (fArray (H ! shifted) ! j) (fArray (H ! cv) ! j))
                       (fArray (H ! cv) ! j))"
proof -
  have len: "length (fArray (H ! shifted)) = length (fArray (H ! cv))"
    using assms(3) by (simp add: same_binning_def)
  let ?cells = "map2 fractional_cell (fArray (H ! shifted)) (fArray (H ! cv))"
  have eq: "fractional_cells H shifted cv = Some ?cells"
    by (simp add: fractional_cells_def MakeFractionalPlot_eq [OF assms(1,2) len])
  have z: "?cells ! i = Fin 0"
    using assms(4,5) len by (simp add: fractional_cell_zero)
  have o: "?cells ! j = Divide_cell (dbl_sub (fArray (H ! shifted) ! j) (fArray (H ! cv) ! j))
                       (fArray (H ! cv) ! j)" if "j < length (fArray (H ! cv))" for j
    using that len by (simp add: fractional_cell_def Add_cell_minus_one)
  show ?thesis using eq z o by simp
qed

theorem C5_zero_central_bin_witness:
  "(0::nat) < length [hist [Fin 3, Fin 1], hist [Fin 2, Fin 0]] \<and>
   (1::nat) < length [hist [Fin 3, Fin 1], hist [Fin 2, Fin 0]] \<and>
   same_binning ([hist [Fin 3, Fin 1], hist [Fin 2, Fin 0]] ! 0)
                ([hist [Fin 3, Fin 1], hist [Fin 2, Fin 0]] ! 1) \<and>
   (1::nat) < length (fArray ([hist [Fin 3, Fin 1], hist [Fin 2, Fin 0]] ! 1)) \<and>
   dbl_eq (fArray ([hist [Fin 3, Fin 1], hist [Fin 2, Fin 0]] ! 1) ! 1) (Fin 0) \<and>
   (\<exists>cells. fractional_cells [hist [Fin 3, Fin 1], hist [Fin 2, Fin 0]] 0 1 = Some cells \<and>
      cells ! 1 = Fin 0 \<and> (0::nat) \<noteq> 1 \<and> cells ! 0 = Fin (1/2))"
proof -
  let ?H = "[hist [Fin 3, Fin 1], hist [Fin 2, Fin 0]]"
  have a: "(0::nat) < length ?H" and b: "(1::nat) < length ?H" by simp_all
  have c: "same_binning (?H ! 0) (?H ! 1)" by (simp add: same_binning_def hist_def)
  have d: "(1::nat) < length (fArray (?H ! 1))" by (simp add: hist_def)
  have e: "dbl_eq (fArray (?H ! 1) ! 1) (Fin 0)" by (simp add: hist_def)
  obtain cells where r: "fractional_cells ?H 0 1 = Some cells" "cells ! 1 = Fin 0"
     and o: "\<forall>j < length (fArray (?H ! 1)). j \<noteq> 1 \<longrightarrow>
         cells ! j = Divide_cell (dbl_sub (fArray (?H ! 0) ! j) (fArray (?H ! 1) ! j))
                       (fArray (?H ! 1) ! j)"
    using C5_zero_central_bin [OF a b c d e] by blast
  have "cells ! 0 = Divide_cell (dbl_sub (fArray (?H ! 0) ! 0) (fArray (?H ! 1) ! 0))
                       (fArray (?H ! 1) ! 0)"
    using o by (simp add: hist_def)
  then have "cells ! 0 = Fin (1/2)"
    by (simp add: hist_def Divide_cell_def dbl_sub_def)
  with a b c d e r show ?thesis by simp
qed

text \<open>
  C10 as stated fails on a histogram with an infinite or NaN bin: \<open>\<infinity> - \<infinity>\<close> is NaN, and
  NaN passes the test of \<open>Divide\<close> for a nonzero divisor.
\<close>

theorem C10_counterexample:
  "fractional_cells [hist [Fin 1, PInf, NaN]] 0 0 = Some [Fin 0, NaN, NaN] \<and> NaN \<noteq> Fin 0"
  by (simp add: fractional_cells_def MakeFractionalPlot_def TH1_Clone_def TH1_Add_def
      TH1_Divide_def hist_def Add_cell_def Divide_cell_def inf_of_sign_def)

text \<open>
  C10, amended. For every histogram whose bin contents are all finite, the fractional plot
  of the histogram against itself is \<open>0\<close> in every bin, the bins where it is zero included.
\<close>

theorem C10_self_fraction_zero:
  assumes "h < length H" and "list_all is_finite (fArray (H ! h))"
  shows "fractional_cells H h h = Some (replicate (length (fArray (H ! h))) (Fin 0))"
proof -
  let ?a = "fArray (H ! h)"
  have "map2 fractional_cell ?a ?a = replicate (length ?a) (Fin 0)"
    using assms(2)
    by (intro nth_equalityI) (simp_all add: list_all_length fractional_cell_self)
  then show ?thesis
    by (simp add: fractional_cells_def MakeFractionalPlot_eq [OF assms(1) assms(1) refl])
qed

theorem C10_self_fraction_zero_witness:
  "(0::nat) < length [hist [Fin 0, Fin 4, Fin 0, Fin (-2)]] \<and>
   list_all is_finite (fArray ([hist [Fin 0, Fin 4, Fin 0, Fin (-2)]] ! 0)) \<and>
   fractional_cells [hist [Fin 0, Fin 4, Fin 0, Fin (-2)]] 0 0 = Some [Fin 0, Fin 0, Fin 0, Fin 0]"
proof -
  let ?H = "[hist [Fin 0, Fin 4, Fin 0, Fin (-2)]]"
  have a: "(0::nat) < length ?H" by simp
  have b: "list_all is_finite (fArray (?H ! 0))" by (simp add: hist_def)
  show ?thesis using a b C10_self_fraction_zero [OF a b] by (simp add: hist_def numeral_eq_Suc)
qed

section \<open>Binning\<close>

text \<open>
  C7. The uniform constructor rejects a count that is not positive and a low edge that is
  not below the high edge with a configuration error; on every other input it produces a
  binning of exactly \<open>count\<close> bins (\<open>count + 1\<close> edges from the low edge to the high edge),
  each of width \<open>(highEdge - lowEdge) / count\<close>.
\<close>

theorem C7_Binning_Simple:
  "(n \<le> 0 \<or> lo \<ge> hi \<longrightarrow> Binning_Simple n lo hi = Inl ConfigurationError) \<and>
   (0 < n \<and> lo < hi \<longrightarrow>
      (\<exists>b. Binning_Simple n lo hi = Inr b \<and> fNBins b = nat n \<and>
           length (fEdges b) = Suc (nat n) \<and>
           fEdges b ! 0 = lo \<and> fEdges b ! nat n = hi \<and>
           (\<forall>i < nat n. fEdges b ! Suc i - fEdges b ! i = (hi - lo) / real_of_int n \<and>
                        fEdges b ! i < fEdges b ! Suc i)))"
proof (intro conjI impI)
  assume "n \<le> 0 \<or> lo \<ge> hi"
  then show "Binning_Simple n lo hi = Inl ConfigurationError"
    by (auto simp: Binning_Simple_def)
next
  assume a: "0 < n \<and> lo < hi"
  let ?w = "(hi - lo) / real_of_int n"
  let ?b = "\<lparr>fNBins = nat n, fMin = lo, fMax = hi,
             fEdges = map (\<lambda>i. lo + real i * (hi - lo) / real_of_int n) [0..<Suc (nat n)]\<rparr>"
  have eq: "Binning_Simple n lo hi = Inr ?b"
    using a by (auto simp: Binning_Simple_def)
  have w: "0 < ?w" using a by simp
  have nth: "fEdges ?b ! i = lo + real i * (hi - lo) / real_of_int n" if "i \<le> nat n" for i
  proof -
    have "i < length [0..<Suc (nat n)]" using that by simp
    then have "map (\<lambda>i. lo + real i * (hi - lo) / real_of_int n) [0..<Suc (nat n)] ! i
       = lo + real ([0..<Suc (nat n)] ! i) * (hi - lo) / real_of_int n"
      by (rule nth_map)
    also have "[0..<Suc (nat n)] ! i = i" using that by (metis add_0 le_imp_less_Suc nth_upt)
    finally show ?thesis by simp
  qed
  have last: "fEdges ?b ! nat n = hi"
  proof -
    have "real (nat n) = real_of_int n" using a by simp
    then show ?thesis using a nth [of "nat n"] by simp
  qed
  have step: "fEdges ?b ! Suc i - fEdges ?b ! i = ?w \<and> fEdges ?b ! i < fEdges ?b ! Suc i"
    if "i < nat n" for i
  proof -
    have 1: "fEdges ?b ! Suc i = lo + real (Suc i) * (hi - lo) / real_of_int n"
      using that nth [of "Suc i"] by simp
    have 2: "fEdges ?b ! i = lo + real i * (hi - lo) / real_of_int n"
      using that nth [of i] by simp
    have "fEdges ?b ! Suc i - fEdges ?b ! i = ?w"
      unfolding 1 2 by (simp add: algebra_simps add_divide_distrib diff_divide_distrib)
    then show ?thesis using w by linarith
  qed
  show "\<exists>b. Binning_Simple n lo hi = Inr b \<and> fNBins b = nat n \<and>
           length (fEdges b) = Suc (nat n) \<and>
           fEdges b ! 0 = lo \<and> fEdges b ! nat n = hi \<and>
           (\<forall>i < nat n. fEdges b ! Suc i - fEdges b ! i = (hi - lo) / real_of_int n \<and>
                        fEdges b ! i < fEdges b ! Suc i)"
  proof (intro exI conjI allI impI)
    show "Binning_Simple n lo hi = Inr ?b" by (rule eq)
    show "fNBins ?b = nat n" by simp
    show "length (fEdges ?b) = Suc (nat n)" by simp
    show "fEdges ?b ! 0 = lo" using nth [of 0] by simp
    show "fEdges ?b ! nat n = hi" by (rule last)
    show "fEdges ?b ! Suc i - fEdges ?b ! i = (hi - lo) / real_of_int n" if "i < nat n" for i
      using step [OF that] by blast
    show "fEdges ?b ! i < fEdges ?b ! Suc i" if "i < nat n" for i
      using step [OF that] by blast
  qed
qed

lemma Binning_Simple_2: "Binning_Simple 2 0 10 = Inr two_bins"
  by (simp add: Binning_Simple_def two_bins_def upt_rec numeral_eq_Suc)

theorem C7_Binning_Simple_witness:
  "((0::int) \<le> 0 \<or> (0::real) \<ge> 10) \<and> Binning_Simple 0 0 10 = Inl ConfigurationError \<and>
   ((2::int) \<le> 0 \<or> (10::real) \<ge> 10) \<and> Binning_Simple 2 10 10 = Inl ConfigurationError \<and>
   (0::int) < 2 \<and> (0::real) < 10 \<and>
   (\<exists>b. Binning_Simple 2 0 10 = Inr b \<and> fNBins b = 2 \<and> length (fEdges b) = 3 \<and>
        (1::nat) < 2 \<and> fEdges b ! 2 - fEdges b ! 1 = 5)"
proof -
  have r1: "Binning_Simple 0 0 10 = Inl ConfigurationError"
    using C7_Binning_Simple [where n = 0 and lo = 0 and hi = 10] by simp
  have r2: "Binning_Simple 2 10 10 = Inl ConfigurationError"
    using C7_Binning_Simple [where n = 2 and lo = 10 and hi = 10] by simp
  obtain b where b: "Binning_Simple 2 0 10 = Inr b" "fNBins b = nat 2"
      "length (fEdges b) = Suc (nat 2)"
      "\<forall>i < nat 2. fEdges b ! Suc i - fEdges b ! i = (10 - 0) / real_of_int 2 \<and>
                        fEdges b ! i < fEdges b ! Suc i"
    using C7_Binning_Simple [where n = 2 and lo = 0 and hi = 10] by auto
  have "fEdges b ! Suc 1 - fEdges b ! 1 = (10 - 0) / real_of_int 2"
    using b(4) by simp
  then have "fEdges b ! 2 - fEdges b ! 1 = 5" by (simp add: numeral_2_eq_2)
  with r1 r2 b show ?thesis by auto
qed

section \<open>The scenario of three events\<close>

text \<open>The loader makes one pass: after \<open>Go\<close> it takes no spectrum and no second \<open>Go\<close>.\<close>

lemma Go_once:
  assumes "Go l events g = Inr (l', g')"
  shows "Go l' events' g'' = Inl AlreadyFinalized \<and> registerSpectrum sp l' = Inl AlreadyRunning"
  using assms by (auto simp: Go_def registerSpectrum_def Let_def split: if_splits)

lemma registerSpectrum_Idle:
  "registerSpectrum sp new_Loader = Inr \<lparr>state = Idle, registered = [sp]\<rparr>"
  by (simp add: registerSpectrum_def new_Loader_def)

lemmas run_simps = run_spectra_def Go_def handle_record_def handle_shift_def apply_shifts_def
  undo_shifts_def observe_def new_Spectrum_def two_bins_def kRecoMuonEnergy_def always_true_def
  three_events_def muon_def ssScaleUp_def EMuScale_Shift_def Restorer_Add_def Let_def
  numeral_2_eq_2

text \<open>
  C3 as stated fails in its first half: the central-value spectrum of the three events
  holds \<open>[1, 2]\<close>, not \<open>[2, 1]\<close>, since \<open>0.5\<close> alone lies in \<open>[0, 5)\<close> and both \<open>9.5\<close> and
  \<open>5.0\<close> lie in \<open>[5, 10)\<close>.
\<close>

theorem C3_counterexample:
  "content (hd (run_spectra [new_Spectrum two_bins kRecoMuonEnergy always_true []]
       three_events g_example)) = [Fin 1, Fin 2] \<and> [Fin 1, Fin 2] \<noteq> [Fin 2, Fin 1]"
  by (simp add: run_simps)

text \<open>
  C3, amended. Three events of weight \<open>1\<close> with the values \<open>0.5\<close>, \<open>9.5\<close>, \<open>5.0\<close>, the
  binning \<open>Binning::Simple(2, 0, 10)\<close> and the predicate that is always true: the
  central-value spectrum holds \<open>[1, 2]\<close>. Under \<open>EMuScale\<close> with \<open>sigma = +1\<close> the values
  become \<open>0.6\<close> (bin 0), \<open>11.4\<close> (overflow, dropped) and \<open>6.0\<close> (bin 1): the shifted spectrum
  holds \<open>[1, 1]\<close> and has dropped exactly one event.
\<close>

theorem C3_scenario:
  "Binning_Simple 2 0 10 = Inr two_bins \<and>
   map content (run_spectra [new_Spectrum two_bins kRecoMuonEnergy always_true [],
                             new_Spectrum two_bins kRecoMuonEnergy always_true ssScaleUp]
       three_events g) = [[Fin 1, Fin 2], [Fin 1, Fin 1]] \<and>
   map dropped (run_spectra [new_Spectrum two_bins kRecoMuonEnergy always_true [],
                             new_Spectrum two_bins kRecoMuonEnergy always_true ssScaleUp]
       three_events g) = [0, 1] \<and>
   map (\<lambda>ev. kRecoMuonEnergy (sr (apply_shifts ssScaleUp (fst ev) g))) three_events
      = [Fin (6/10), Fin (114/10), Fin 6] \<and>
   map (binIndexOf two_bins) [Fin (6/10), Fin (114/10), Fin 6] = [Bin 0, Overflow, Bin 1]"
  by (simp add: run_simps Binning_Simple_2)

section \<open>One pass against separate passes\<close>

lemma Shift_deterministic:
  assumes "\<not> stochastic syst" and "sr s = sr s'" and "weight s = weight s'"
  shows "sr (Shift syst sigma s) = sr (Shift syst sigma s') \<and>
         weight (Shift syst sigma s) = weight (Shift syst sigma s')"
  using assms by (cases syst) (simp_all add: EMuScale_Shift_def Let_def)

lemma SystShifts_deterministic:
  assumes "deterministic S" and "sr s = sr s'" and "weight s = weight s'"
  shows "sr (SystShifts_Shift S s) = sr (SystShifts_Shift S s') \<and>
         weight (SystShifts_Shift S s) = weight (SystShifts_Shift S s')"
  using assms
proof (induction S arbitrary: s s')
  case Nil
  then show ?case by simp
next
  case (Cons p S)
  obtain syst sigma where p: "p = (syst, sigma)" by (cases p)
  from Cons.prems(1) have ns: "\<not> stochastic syst" and dS: "deterministic S"
    by (simp_all add: deterministic_def p)
  have a: "sr (Shift syst sigma s) = sr (Shift syst sigma s')"
    and b: "weight (Shift syst sigma s) = weight (Shift syst sigma s')"
    using Shift_deterministic [OF ns Cons.prems(2,3)] by blast+
  show ?case unfolding p SystShifts_Shift.simps by (rule Cons.IH [OF dS a b])
qed

lemma apply_shifts_deterministic:
  "deterministic S \<Longrightarrow>
   sr (apply_shifts S r g) = sr (apply_shifts S r g') \<and>
   weight (apply_shifts S r g) = weight (apply_shifts S r g')"
  unfolding apply_shifts_def by (rule SystShifts_deterministic) simp_all

lemma shift_observe: "shift (observe sp r w) = shift sp"
  by (simp add: observe_def Let_def split: bin_index.splits)

lemma observe_static:
  "bins (observe sp r w) = bins sp \<and> var (observe sp r w) = var sp \<and>
   cut (observe sp r w) = cut sp"
  by (simp add: observe_def Let_def split: bin_index.splits)

lemma generator_free_observe: "generator_free (observe sp r w) = generator_free sp"
  by (simp add: generator_free_def landing_def observe_static shift_observe)

lemma binIndexOf_NaN: "isnan x \<Longrightarrow> binIndexOf b x = Overflow"
  by (cases x) simp_all

lemma observe_landing:
  assumes "landing sp r = landing sp r'"
  shows "observe sp r w = observe sp r' w"
proof (cases "cut sp r")
  case False
  then have "\<not> cut sp r'" using assms by (simp add: landing_def split: if_splits)
  then show ?thesis using False by (simp add: observe_def)
next
  case True
  then have c: "cut sp r'" and b: "binIndexOf (bins sp) (var sp r) = binIndexOf (bins sp) (var sp r')"
    using assms by (simp_all add: landing_def split: if_splits)
  have "observe sp r'' w =
     (case binIndexOf (bins sp) (var sp r'') of
        Bin i \<Rightarrow>
          if i < length (content sp) \<and> i < length (sumw2 sp) then
            sp\<lparr>content := (content sp)[i := dbl_add (content sp ! i) w],
               sumw2 := (sumw2 sp)[i := dbl_add (sumw2 sp ! i) (dbl_mul w w)]\<rparr>
          else sp\<lparr>dropped := Suc (dropped sp)\<rparr>
      | Underflow \<Rightarrow> sp\<lparr>dropped := Suc (dropped sp)\<rparr>
      | Overflow \<Rightarrow> sp\<lparr>dropped := Suc (dropped sp)\<rparr>)" if "cut sp r''" for r''
    using that by (simp add: observe_def Let_def binIndexOf_NaN)
  from this [OF True] this [OF c] show ?thesis by (simp add: b)
qed

lemma weight_Shift: "weight (Shift syst sigma s) = weight s"
  by (cases syst)
     (simp_all add: EMuScale_Shift_def EMuSmear_Shift_def ThetaSmear_Shift_def Let_def
        split: prod.splits)

lemma weight_SystShifts: "weight (SystShifts_Shift S s) = weight s"
proof (induction S arbitrary: s)
  case Nil
  show ?case by simp
next
  case (Cons p S)
  obtain syst sigma where p: "p = (syst, sigma)" by (cases p)
  show ?case unfolding p by (simp add: Cons.IH weight_Shift)
qed

lemma weight_apply_shifts: "weight (apply_shifts S r g) = Fin 1"
  by (simp add: apply_shifts_def weight_SystShifts)

lemma deterministic_generator_free:
  assumes "deterministic (shift sp)"
  shows "generator_free sp"
proof -
  have "sr (apply_shifts (shift sp) r g) = sr (apply_shifts (shift sp) r g')" for r g g'
    using apply_shifts_deterministic [OF assms, of r g g'] by blast
  then have "landing sp (sr (apply_shifts (shift sp) r g)) =
             landing sp (sr (apply_shifts (shift sp) r g'))" for r g g'
    by (rule arg_cong)
  then show ?thesis unfolding generator_free_def by blast
qed

lemma ThetaSmear_Elep: "Elep_reco (sr (apply_shifts ssThetaSmear r g)) = Elep_reco r"
  by (simp add: apply_shifts_def ssThetaSmear_def ThetaSmear_Shift_def Let_def
      split: prod.splits)

lemma Systematics3_generator_free:
  assumes "j < 5" and "j \<noteq> 3"
  shows "generator_free (Systematics3_spectra b ! j)"
proof -
  have th: "generator_free (new_Spectrum b kRecoMuonEnergy kHasCC0PiFinalState ssThetaSmear)"
  proof -
    have "kHasCC0PiFinalState (sr (apply_shifts ssThetaSmear r g)) = kHasCC0PiFinalState r"
      for r g
      using SystShifts_frame [of ssThetaSmear
          "\<lparr>restore = [], sr = r, weight = Fin 1, gRandom = g\<rparr>"]
      by (simp add: kHasCC0PiFinalState_def apply_shifts_def)
    then show ?thesis
      by (simp add: generator_free_def landing_def new_Spectrum_def kRecoMuonEnergy_def
          ThetaSmear_Elep)
  qed
  have det: "generator_free (new_Spectrum b kRecoMuonEnergy kHasCC0PiFinalState S)"
    if "deterministic S" for S
    using that by (intro deterministic_generator_free) (simp add: new_Spectrum_def)
  from assms have "j = 0 \<or> j = 1 \<or> j = 2 \<or> j = 4" by arith
  then show ?thesis
    using th det [of "[]"] det [of ssScaleUp] det [of ssScaleDn]
    by (auto simp: Systematics3_spectra_def deterministic_def ssScaleUp_def ssScaleDn_def)
qed

lemma handle_shift_length: "length (spectra (handle_shift w S p)) = length (spectra p)"
  by (simp add: handle_shift_def Let_def)

lemma handle_shift_event: "event (handle_shift w S p) = event p"
  by (simp add: handle_shift_def Let_def undo_apply_shifts)

lemma handle_shift_shift:
  "i < length (spectra p) \<Longrightarrow> shift (spectra (handle_shift w S p) ! i) = shift (spectra p ! i)"
  by (simp add: handle_shift_def Let_def shift_observe)

lemma handle_shift_other:
  "i < length (spectra p) \<Longrightarrow> shift (spectra p ! i) \<noteq> S \<Longrightarrow>
   spectra (handle_shift w S p) ! i = spectra p ! i"
  by (simp add: handle_shift_def Let_def)

lemma handle_shift_own:
  assumes "i < length (spectra p)" and "generator_free (spectra p ! i)"
  shows "spectra (handle_shift w (shift (spectra p ! i)) p) ! i =
         det_observe (event p, w) (spectra p ! i)"
proof -
  let ?sp = "spectra p ! i"
  have "landing ?sp (sr (apply_shifts (shift ?sp) (event p) (rng p))) =
        landing ?sp (sr (apply_shifts (shift ?sp) (event p) g_quiet))"
    using assms(2) unfolding generator_free_def by blast
  then have "observe ?sp (sr (apply_shifts (shift ?sp) (event p) (rng p))) (dbl_mul w (Fin 1)) =
        observe ?sp (sr (apply_shifts (shift ?sp) (event p) g_quiet)) (dbl_mul w (Fin 1))"
    by (rule observe_landing)
  then show ?thesis
    using assms(1) by (simp add: handle_shift_def det_observe_def Let_def weight_apply_shifts)
qed

lemma fold_handle_shift_length:
  "length (spectra (fold (handle_shift w) plan p)) = length (spectra p)"
  by (induction plan arbitrary: p) (simp_all add: handle_shift_length)

lemma fold_handle_shift_absent:
  assumes "i < length (spectra p)" and "shift (spectra p ! i) \<notin> set plan"
  shows "spectra (fold (handle_shift w) plan p) ! i = spectra p ! i"
  using assms
proof (induction plan arbitrary: p)
  case Nil
  then show ?case by simp
next
  case (Cons S plan)
  let ?p1 = "handle_shift w S p"
  have ne: "shift (spectra p ! i) \<noteq> S" using Cons.prems(2) by auto
  have same: "spectra ?p1 ! i = spectra p ! i"
    using handle_shift_other [OF Cons.prems(1) ne] .
  have "spectra (fold (handle_shift w) plan ?p1) ! i = spectra ?p1 ! i"
    using Cons.prems by (intro Cons.IH) (simp_all add: handle_shift_length same)
  then show ?case by (simp add: same)
qed

lemma fold_handle_shift_present:
  assumes "i < length (spectra p)" and "shift (spectra p ! i) \<in> set plan" and "distinct plan"
    and "generator_free (spectra p ! i)"
  shows "spectra (fold (handle_shift w) plan p) ! i = det_observe (event p, w) (spectra p ! i)"
  using assms
proof (induction plan arbitrary: p)
  case Nil
  then show ?case by simp
next
  case (Cons S plan)
  let ?p1 = "handle_shift w S p"
  have len: "i < length (spectra ?p1)" using Cons.prems(1) by (simp add: handle_shift_length)
  have sh: "shift (spectra ?p1 ! i) = shift (spectra p ! i)"
    using handle_shift_shift [OF Cons.prems(1)] .
  show ?case
  proof (cases "shift (spectra p ! i) = S")
    case True
    then have "shift (spectra ?p1 ! i) \<notin> set plan" using Cons.prems(3) sh by simp
    then have "spectra (fold (handle_shift w) plan ?p1) ! i = spectra ?p1 ! i"
      using len by (intro fold_handle_shift_absent)
    also have "\<dots> = det_observe (event p, w) (spectra p ! i)"
      using handle_shift_own [OF Cons.prems(1) Cons.prems(4), of w] True by simp
    finally show ?thesis by simp
  next
    case False
    then have same: "spectra ?p1 ! i = spectra p ! i"
      using handle_shift_other [OF Cons.prems(1)] by simp
    have "spectra (fold (handle_shift w) plan ?p1) ! i = det_observe (event ?p1, w) (spectra ?p1 ! i)"
      using Cons.prems False len by (intro Cons.IH) (simp_all add: same)
    then show ?thesis by (simp add: same handle_shift_event)
  qed
qed

lemma distinct_shifts_set: "set (distinct_shifts xs) = set xs"
  by (induction xs) auto

lemma distinct_shifts_distinct: "distinct (distinct_shifts xs)"
  by (induction xs) simp_all

lemma handle_record_length: "length (fst (handle_record plan ev acc)) = length (fst acc)"
  by (simp add: handle_record_def Let_def fold_handle_shift_length)

lemma fold_handle_shift_shift:
  "i < length (spectra p) \<Longrightarrow>
   shift (spectra (fold (handle_shift w) plan p) ! i) = shift (spectra p ! i)"
  by (induction plan arbitrary: p) (simp_all add: handle_shift_length handle_shift_shift)

lemma handle_record_shift:
  "i < length (fst acc) \<Longrightarrow> shift (fst (handle_record plan ev acc) ! i) = shift (fst acc ! i)"
  by (simp add: handle_record_def Let_def fold_handle_shift_shift)

lemma handle_record_nth:
  assumes "i < length (fst acc)" and "shift (fst acc ! i) \<in> set plan" and "distinct plan"
    and "generator_free (fst acc ! i)"
  shows "fst (handle_record plan ev acc) ! i = det_observe ev (fst acc ! i)"
  using fold_handle_shift_present [of i "\<lparr>spectra = fst acc, event = fst ev, rng = snd acc\<rparr>"
      plan "snd ev"] assms
  by (simp add: handle_record_def Let_def)

lemma shift_det_observe: "shift (det_observe ev sp) = shift sp"
  by (simp add: det_observe_def Let_def shift_observe)

lemma generator_free_det_observe: "generator_free (det_observe ev sp) = generator_free sp"
  by (simp add: det_observe_def Let_def generator_free_observe)

lemma fold_handle_record_nth:
  assumes "i < length (fst acc)" and "shift (fst acc ! i) \<in> set plan" and "distinct plan"
    and "generator_free (fst acc ! i)"
  shows "fst (fold (handle_record plan) events acc) ! i = fold det_observe events (fst acc ! i)"
  using assms
proof (induction events arbitrary: acc)
  case Nil
  then show ?case by simp
next
  case (Cons ev events)
  let ?a1 = "handle_record plan ev acc"
  have n: "fst ?a1 ! i = det_observe ev (fst acc ! i)"
    using handle_record_nth [OF Cons.prems] .
  have "fst (fold (handle_record plan) events ?a1) ! i = fold det_observe events (fst ?a1 ! i)"
    using Cons.prems by (intro Cons.IH) (simp_all add: handle_record_length n shift_det_observe generator_free_det_observe)
  then show ?case by (simp add: n)
qed

lemma run_spectra_nth:
  assumes "i < length sps" and "generator_free (sps ! i)"
  shows "run_spectra sps events g ! i = fold det_observe events (sps ! i)"
proof -
  let ?plan = "distinct_shifts (map shift sps)"
  have "shift (sps ! i) \<in> set ?plan" using assms(1) by (simp add: distinct_shifts_set)
  then have "fst (fold (handle_record ?plan) events (sps, g)) ! i =
      fold det_observe events (fst (sps, g) ! i)"
    using assms by (intro fold_handle_record_nth) (simp_all add: distinct_shifts_distinct)
  then show ?thesis by (simp add: run_spectra_def Go_def Let_def)
qed

lemma Binning_Simple_40: "Binning_Simple 40 0 10 = Inr binsEnergy"
  by (simp add: Binning_Simple_def binsEnergy_def)

lemma binIndexOf_binsEnergy:
  "binIndexOf binsEnergy (Fin (6/5)) = Bin 4" "binIndexOf binsEnergy (Fin (36/25)) = Bin 5"
  "binIndexOf binsEnergy (Fin (24/25)) = Bin 3"
  by (simp_all add: binsEnergy_def upt_rec)

lemmas pass_simps = run_spectra_def Go_def handle_record_def handle_shift_def apply_shifts_def
  undo_shifts_def observe_def new_Spectrum_def kRecoMuonEnergy_def
  muon_def EMuScale_Shift_def EMuSmear_Shift_def ThetaSmear_Shift_def Gaus_def Restorer_Add_def
  Let_def

lemma fNBins_binsEnergy: "fNBins binsEnergy = 40"
  by (simp add: binsEnergy_def)

text \<open>
  C2, amended. Whatever spectra are registered with it, a spectrum that is free of the
  generator is filled by the one pass exactly as by a pass of its own over the same events,
  whatever the state of the generator in either pass. Every spectrum with a deterministic
  ShiftSet is free of the generator. Of the five spectra of Systematics3.C all but the
  energy smear are: central value, scale up, scale down, and the angle smear, since the
  muon energy and the CC0pi cut do not read \<open>theta_reco\<close>.
\<close>

theorem C2_independent_passes:
  "(i < length sps \<and> generator_free (sps ! i) \<longrightarrow>
      run_spectra sps events g ! i = hd (run_spectra [sps ! i] events g')) \<and>
   (deterministic (shift sp) \<longrightarrow> generator_free sp) \<and>
   (j < 5 \<and> j \<noteq> 3 \<longrightarrow>
      run_spectra (Systematics3_spectra b) events g ! j =
      hd (run_spectra [Systematics3_spectra b ! j] events g'))"
proof -
  have gen: "run_spectra sps events g ! i = hd (run_spectra [sps ! i] events g')"
    if a: "i < length sps" and f: "generator_free (sps ! i)" for sps i
  proof -
    have "run_spectra [sps ! i] events g' ! 0 = fold det_observe events ([sps ! i] ! 0)"
      using f by (intro run_spectra_nth) simp_all
    moreover have "length (run_spectra [sps ! i] events g') = 1"
    proof -
      have "length (fst (fold (handle_record plan) events acc)) = length (fst acc)" for plan acc
        by (induction events arbitrary: acc) (simp_all add: handle_record_length)
      then show ?thesis by (simp add: run_spectra_def Go_def Let_def)
    qed
    ultimately have "hd (run_spectra [sps ! i] events g') = fold det_observe events (sps ! i)"
      by (cases "run_spectra [sps ! i] events g'") simp_all
    then show ?thesis using run_spectra_nth [OF a f] by simp
  qed
  have mac: "run_spectra (Systematics3_spectra b) events g ! j =
      hd (run_spectra [Systematics3_spectra b ! j] events g')" if "j < 5" and "j \<noteq> 3"
    using that by (intro gen Systematics3_generator_free) (simp add: Systematics3_spectra_def)
  show ?thesis using gen mac deterministic_generator_free by blast
qed

theorem C2_independent_passes_witness:
  "(4::nat) < length (Systematics3_spectra binsEnergy) \<and>
   generator_free (Systematics3_spectra binsEnergy ! 4) \<and>
   run_spectra (Systematics3_spectra binsEnergy) two_muons g_example ! 4 =
     hd (run_spectra [Systematics3_spectra binsEnergy ! 4] two_muons g_example_later) \<and>
   deterministic (shift (Systematics3_spectra binsEnergy ! 1)) \<and>
   generator_free (Systematics3_spectra binsEnergy ! 1) \<and>
   (4::nat) < 5 \<and> (4::nat) \<noteq> 3 \<and>
   content (run_spectra (Systematics3_spectra binsEnergy) two_muons g_example ! 4) ! 4 = Fin 2"
proof -
  let ?sps = "Systematics3_spectra binsEnergy"
  have a: "(4::nat) < length ?sps" by (simp add: Systematics3_spectra_def)
  have f: "generator_free (?sps ! 4)" by (rule Systematics3_generator_free) simp_all
  have d: "deterministic (shift (?sps ! 1))"
    by (simp add: Systematics3_spectra_def new_Spectrum_def ssScaleUp_def deterministic_def)
  note th = C2_independent_passes [of 4 ?sps two_muons g_example g_example_later "?sps ! 1"
      4 binsEnergy]
  have e: "run_spectra ?sps two_muons g_example ! 4 =
     hd (run_spectra [?sps ! 4] two_muons g_example_later)"
    using th a f by blast
  have f1: "generator_free (?sps ! 1)" using th d by blast
  have c: "content (run_spectra ?sps two_muons g_example ! 4) ! 4 = Fin 2"
    by (simp add: pass_simps Systematics3_spectra_def two_muons_def g_example_def
      ssScaleUp_def ssScaleDn_def ssSmear_def ssThetaSmear_def kHasCC0PiFinalState_def
      binIndexOf_binsEnergy fNBins_binsEnergy del: binIndexOf.simps)
  show ?thesis using a f e d f1 c by simp
qed

text \<open>
  C2 as stated fails for the energy smear. In the one pass of the macro's five spectra over
  two events, \<open>EMuSmear\<close> gets the first and the third variate of \<open>gRandom\<close> (the angle
  smear takes the second); in a pass of its own it gets the first and the second. With
  the second variate \<open>1\<close> and the others \<open>0\<close>, two muons of \<open>1.2\<close> GeV leave bin 5 empty in
  the one pass, and one of them lands there (\<open>1.44\<close> GeV) in the separate pass.
\<close>

theorem C2_counterexample:
  "content (run_spectra (Systematics3_spectra binsEnergy) two_muons g_example ! 3) ! 5 = Fin 0 \<and>
   content (hd (run_spectra [Systematics3_spectra binsEnergy ! 3] two_muons g_example)) ! 5 = Fin 1"
  by (simp add: pass_simps Systematics3_spectra_def two_muons_def g_example_def
      ssScaleUp_def ssScaleDn_def ssSmear_def ssThetaSmear_def kHasCC0PiFinalState_def
      binIndexOf_binsEnergy fNBins_binsEnergy del: binIndexOf.simps)

section \<open>Where the randomness comes from\<close>

lemma same_stream_advance:
  "same_stream g g' \<Longrightarrow> same_stream (g\<lparr>pos := Suc (pos g)\<rparr>) (g'\<lparr>pos := Suc (pos g')\<rparr>)"
proof -
  assume a: "same_stream g g'"
  have "variates g (Suc (pos g) + n) = variates g' (Suc (pos g') + n)" for n
    using a [unfolded same_stream_def, rule_format, of "Suc n"] by simp
  then show ?thesis by (simp add: same_stream_def)
qed

lemma same_stream_next: "same_stream g g' \<Longrightarrow> variates g (pos g) = variates g' (pos g')"
  unfolding same_stream_def by (drule spec [of _ 0]) simp

lemma Shift_same_inputs:
  assumes "same_inputs s s'"
  shows "same_inputs (Shift syst sigma s) (Shift syst sigma s')"
proof -
  from assms have st: "same_stream (gRandom s) (gRandom s')"
    and eqs: "restore s = restore s'" "sr s = sr s'" "weight s = weight s'"
    by (simp_all add: same_inputs_def)
  note nx = same_stream_next [OF st] and adv = same_stream_advance [OF st]
  show ?thesis
  proof (cases syst)
    case EMuScale
    then show ?thesis using eqs st by (simp add: same_inputs_def EMuScale_Shift_def Let_def)
  next
    case EMuSmear
    then show ?thesis using eqs nx adv
      by (simp add: same_inputs_def EMuSmear_Shift_def Gaus_def Let_def)
  next
    case ThetaSmear
    then show ?thesis using eqs nx adv
      by (simp add: same_inputs_def ThetaSmear_Shift_def Gaus_def Let_def)
  qed
qed

lemma SystShifts_same_inputs:
  "same_inputs s s' \<Longrightarrow> same_inputs (SystShifts_Shift S s) (SystShifts_Shift S s')"
proof (induction S arbitrary: s s')
  case Nil
  then show ?case by simp
next
  case (Cons p S)
  obtain syst sigma where p: "p = (syst, sigma)" by (cases p)
  show ?case unfolding p SystShifts_Shift.simps
    by (rule Cons.IH) (rule Shift_same_inputs [OF Cons.prems])
qed

lemma Shift_pos:
  "pos (gRandom (Shift syst sigma s)) = pos (gRandom s) + (if stochastic syst then 1 else 0) \<and>
   variates (gRandom (Shift syst sigma s)) = variates (gRandom s)"
  by (cases syst)
     (simp_all add: EMuScale_Shift_def EMuSmear_Shift_def ThetaSmear_Shift_def Gaus_def Let_def)

lemma SystShifts_pos:
  "pos (gRandom (SystShifts_Shift S s)) =
     pos (gRandom s) + length (filter (\<lambda>p. stochastic (fst p)) S) \<and>
   variates (gRandom (SystShifts_Shift S s)) = variates (gRandom s)"
proof (induction S arbitrary: s)
  case Nil
  show ?case by simp
next
  case (Cons p S)
  obtain syst sigma where p: "p = (syst, sigma)" by (cases p)
  show ?case unfolding p
    using Cons.IH [of "Shift syst sigma s"] Shift_pos [of syst sigma s] by simp
qed

lemma apply_shifts_same_inputs:
  "same_stream g g' \<Longrightarrow> same_inputs (apply_shifts S r g) (apply_shifts S r g')"
  unfolding apply_shifts_def by (rule SystShifts_same_inputs) (simp add: same_inputs_def)

lemma handle_shift_same_pass:
  assumes "same_pass p p'"
  shows "same_pass (handle_shift w S p) (handle_shift w S p')"
proof -
  from assms have e: "spectra p = spectra p'" "event p = event p'"
    and st: "same_stream (rng p) (rng p')" by (simp_all add: same_pass_def)
  have "same_inputs (apply_shifts S (event p) (rng p)) (apply_shifts S (event p') (rng p'))"
    unfolding e(2) by (rule apply_shifts_same_inputs [OF st])
  then show ?thesis using e
    by (simp add: same_pass_def handle_shift_def Let_def same_inputs_def undo_shifts_def)
qed

lemma fold_handle_shift_same_pass:
  "same_pass p p' \<Longrightarrow> same_pass (fold (handle_shift w) plan p) (fold (handle_shift w) plan p')"
proof (induction plan arbitrary: p p')
  case Nil
  then show ?case by simp
next
  case (Cons S plan)
  show ?case unfolding fold_simps
    by (rule Cons.IH) (rule handle_shift_same_pass [OF Cons.prems])
qed

lemma handle_record_same:
  assumes "fst acc = fst acc'" and "same_stream (snd acc) (snd acc')"
  shows "fst (handle_record plan ev acc) = fst (handle_record plan ev acc') \<and>
         same_stream (snd (handle_record plan ev acc)) (snd (handle_record plan ev acc'))"
proof -
  have "same_pass \<lparr>spectra = fst acc, event = fst ev, rng = snd acc\<rparr>
                  \<lparr>spectra = fst acc', event = fst ev, rng = snd acc'\<rparr>"
    using assms by (simp add: same_pass_def)
  from fold_handle_shift_same_pass [OF this, of "snd ev" plan]
  show ?thesis by (simp add: handle_record_def Let_def same_pass_def)
qed

lemma fold_handle_record_same:
  assumes "fst acc = fst acc'" and "same_stream (snd acc) (snd acc')"
  shows "fst (fold (handle_record plan) events acc) = fst (fold (handle_record plan) events acc') \<and>
         same_stream (snd (fold (handle_record plan) events acc))
                     (snd (fold (handle_record plan) events acc'))"
  using assms
proof (induction events arbitrary: acc acc')
  case Nil
  then show ?case by simp
next
  case (Cons ev events)
  have h: "fst (handle_record plan ev acc) = fst (handle_record plan ev acc')"
    "same_stream (snd (handle_record plan ev acc)) (snd (handle_record plan ev acc'))"
    using handle_record_same [OF Cons.prems] by blast+
  show ?case unfolding fold_simps by (rule Cons.IH [OF h])
qed

text \<open>
  The generator belongs to the program, not to a call or a pass. The same call of \<open>Shift\<close>
  on the same record gives \<open>2\<close> GeV and then \<open>2.4\<close> GeV, and the same pass over the same
  event, made twice, fills two different histograms: the second goes on in the stream
  where the first stopped.
\<close>

lemma second_pass_continues_stream:
  "Elep_reco (sr (apply_shifts ssSmear (muon 2) g_example)) = Fin 2 \<and>
   Elep_reco (sr (apply_shifts ssSmear (muon 2)
      (gRandom (apply_shifts ssSmear (muon 2) g_example)))) = Fin (12/5) \<and>
   content (hd (run_spectra [Systematics3_spectra binsEnergy ! 3] one_muon g_example)) ! 5
     = Fin 0 \<and>
   content (hd (run_spectra [Systematics3_spectra binsEnergy ! 3] one_muon
      (run_rng [Systematics3_spectra binsEnergy ! 3] one_muon g_example))) ! 5 = Fin 1"
  by (simp add: pass_simps run_rng_def Systematics3_spectra_def one_muon_def g_example_def
      ssSmear_def kHasCC0PiFinalState_def binIndexOf_binsEnergy fNBins_binsEnergy
      del: binIndexOf.simps)

text \<open>
  Each call of \<open>Shift\<close> of a stochastic transform takes one variate of \<open>gRandom\<close>: a
  ShiftSet advances the generator by the number of its stochastic transforms and changes
  nothing else of it. Two generators that hold the same stream give the same shifted
  record and, over a whole pass, the same spectra.
\<close>

lemma same_stream_same_results:
  assumes "same_stream g g'"
  shows "sr (apply_shifts S r g) = sr (apply_shifts S r g') \<and>
         same_stream (gRandom (apply_shifts S r g)) (gRandom (apply_shifts S r g')) \<and>
         pos (gRandom (apply_shifts S r g)) = pos g + length (filter (\<lambda>p. stochastic (fst p)) S) \<and>
         variates (gRandom (apply_shifts S r g)) = variates g \<and>
         run_spectra sps events g = run_spectra sps events g'"
proof -
  have a: "same_inputs (apply_shifts S r g) (apply_shifts S r g')"
    by (rule apply_shifts_same_inputs [OF assms])
  have b: "pos (gRandom (apply_shifts S r g)) = pos g + length (filter (\<lambda>p. stochastic (fst p)) S) \<and>
         variates (gRandom (apply_shifts S r g)) = variates g"
    unfolding apply_shifts_def
    using SystShifts_pos [of S "\<lparr>restore = [], sr = r, weight = Fin 1, gRandom = g\<rparr>"] by simp
  have c: "run_spectra sps events g = run_spectra sps events g'"
    using fold_handle_record_same [of "(sps, g)" "(sps, g')" "distinct_shifts (map shift sps)" events]
      assms
    by (simp add: run_spectra_def Go_def Let_def)
  show ?thesis using a b c by (simp add: same_inputs_def)
qed

end
